theory Spec2Isabelle
  imports Complex_Main
begin

section \<open>Text, errors and the interpreter's tables\<close>

text \<open>
  A Python \<open>str\<close> is a sequence of Unicode code points; a code point is modelled as a
  natural number and a text as a list of code points. ASCII literals of the source are
  written as Isabelle strings and converted with \<open>lit\<close>.
\<close>

type_synonym codepoint = nat
type_synonym pystr = "codepoint list"

definition lit :: "string \<Rightarrow> pystr" where
  "lit s = map of_char s"

text \<open>
  The exceptions the modelled code can raise. \<open>ReError\<close> is \<open>re.error\<close>, the only one
  the source catches; \<open>OverflowError\<close> is what compiling a pattern raises when a
  repetition count is too large.
\<close>

datatype py_error = AttributeError | IndexError | ReError | OverflowError

text \<open>
  The Unicode tables of the interpreter are not part of the repository: the class
  \<open>\w\<close> of the \<open>re\<close> module, \<open>str.lower\<close> and \<open>unicodedata.name\<close> are taken as
  parameters.
\<close>

record unicode_db =
  is_word :: "codepoint \<Rightarrow> bool"
  str_lower :: "pystr \<Rightarrow> pystr"
  char_name :: "codepoint \<Rightarrow> string option"

text \<open>
  An excerpt of those tables used to run the model: it agrees with CPython on ASCII
  and on the nine code points of the scan pattern (none of which is a word character).
\<close>

definition ascii_word :: "codepoint \<Rightarrow> bool" where
  "ascii_word c = ((48 \<le> c \<and> c \<le> 57) \<or> (65 \<le> c \<and> c \<le> 90) \<or> c = 95 \<or> (97 \<le> c \<and> c \<le> 122))"

definition ascii_lower :: "pystr \<Rightarrow> pystr" where
  "ascii_lower t = map (\<lambda>c. if 65 \<le> c \<and> c \<le> 90 then c + 32 else c) t"

definition reference_name :: "codepoint \<Rightarrow> string option" where
  "reference_name c =
     (if c = 0x200B then Some ''ZERO WIDTH SPACE''
      else if c = 0x200C then Some ''ZERO WIDTH NON-JOINER''
      else if c = 0x200D then Some ''ZERO WIDTH JOINER''
      else if c = 0x202F then Some ''NARROW NO-BREAK SPACE''
      else if c = 0x00A0 then Some ''NO-BREAK SPACE''
      else if c = 0x2060 then Some ''WORD JOINER''
      else if c = 0xFEFF then Some ''ZERO WIDTH NO-BREAK SPACE''
      else if c = 0x2014 then Some ''EM DASH''
      else if c = 0x2013 then Some ''EN DASH''
      else None)"

definition sample_db :: unicode_db where
  "sample_db = \<lparr>is_word = ascii_word, str_lower = ascii_lower, char_name = reference_name\<rparr>"

section \<open>WatermarkScanThread.run\<close>

text \<open>
  The character class
  \<^verbatim>\<open>[\u200B\u200C\u200D\u202F\u00A0\u2060\uFEFF\u2014\u2013]\<close>
  that \<open>run\<close>, \<open>detect_whitespace\<close> and \<open>clean_whitespace\<close> each compile, in the order
  the source writes it.
\<close>

definition unicode_pattern :: "codepoint list" where
  "unicode_pattern = [0x200B, 0x200C, 0x200D, 0x202F, 0x00A0, 0x2060, 0xFEFF, 0x2014, 0x2013]"

text \<open>
  \<open>pattern.finditer(text)\<close> for a one-character class: the match objects in scan order,
  each as its start position and the matched character (\<open>match.group()\<close>).
\<close>

fun finditer :: "codepoint list \<Rightarrow> nat \<Rightarrow> pystr \<Rightarrow> (nat \<times> codepoint) list" where
  "finditer cls pos [] = []"
| "finditer cls pos (c # cs) =
     (if c \<in> set cls then (pos, c) # finditer cls (Suc pos) cs
      else finditer cls (Suc pos) cs)"

text \<open>The format spec \<open>:04X\<close>: upper-case hexadecimal, zero-padded to four digits.\<close>

definition hex_digit :: "nat \<Rightarrow> char" where
  "hex_digit d = (''0123456789ABCDEF'' ! d)"

function hex_digits :: "nat \<Rightarrow> string" where
  "hex_digits n = (if n < 16 then [hex_digit n] else hex_digits (n div 16) @ [hex_digit (n mod 16)])"
  by pat_completeness auto
termination
  by (relation "measure id") auto

declare hex_digits.simps [simp del]

definition format_04X :: "nat \<Rightarrow> string" where
  "format_04X n = replicate (4 - length (hex_digits n)) CHR ''0'' @ hex_digits n"

text \<open>
  One entry of \<open>invisible_chars\<close>:
  \<^verbatim>\<open>f"{char} (U+{ord(char):04X}: {name})"\<close> with
  \<^verbatim>\<open>name = unicodedata.name(char, "Unknown")\<close>.
\<close>

definition describe :: "unicode_db \<Rightarrow> codepoint \<Rightarrow> pystr" where
  "describe db char =
     (let name = (case char_name db char of Some n \<Rightarrow> n | None \<Rightarrow> ''Unknown'')
      in char # lit ('' (U+'' @ format_04X char @ '': '' @ name @ '')''))"

text \<open>
  \<^verbatim>\<open>re.findall(r'\b\w+\b', s)\<close>: a match starts at a word character that follows a
  non-word character (or the start), the greedy \<open>\w+\<close> takes the whole run, where
  \<open>\b\<close> holds again; a shorter match would end between two word characters, where
  \<open>\b\<close> fails. The matches are the maximal runs of word characters.
\<close>

function findall_words :: "(codepoint \<Rightarrow> bool) \<Rightarrow> pystr \<Rightarrow> pystr list" where
  "findall_words w [] = []"
| "findall_words w (c # cs) =
     (if w c then (c # takeWhile w cs) # findall_words w (dropWhile w cs)
      else findall_words w cs)"
  by pat_completeness auto
termination
  by (relation "measure (\<lambda>(w, cs). length cs)") (auto simp: length_dropWhile_le less_Suc_eq_le)

text \<open>
  \<open>Counter(words)\<close>: a dictionary in insertion order, as an association list from each
  distinct word to its count.
\<close>

fun counter_add :: "'a \<Rightarrow> ('a \<times> nat) list \<Rightarrow> ('a \<times> nat) list" where
  "counter_add w [] = [(w, 1)]"
| "counter_add w ((k, n) # kvs) =
     (if k = w then (k, n + 1) # kvs else (k, n) # counter_add w kvs)"

definition Counter :: "'a list \<Rightarrow> ('a \<times> nat) list" where
  "Counter ws = foldl (\<lambda>acc w. counter_add w acc) [] ws"

text \<open>
  \<open>most_common(n)\<close>: the entries by decreasing count, entries of equal count in
  insertion order (\<open>sort_key\<close> is a stable insertion sort), cut to the first \<open>n\<close>.
\<close>

definition most_common :: "nat \<Rightarrow> ('a \<times> nat) list \<Rightarrow> ('a \<times> nat) list" where
  "most_common n kvs = take n (sort_key (\<lambda>(w, count). - int count) kvs)"

text \<open>
  The attribute \<open>re.log2\<close>. The module \<open>re\<close> has no attribute \<open>log2\<close>, so evaluating
  the expression raises \<open>AttributeError\<close>; no function is ever obtained.
\<close>

definition re_log2 :: "py_error + (real \<Rightarrow> real)" where
  "re_log2 = Inl AttributeError"

text \<open>
  \<^verbatim>\<open>sum((count / len(words)) * re.log2(count / len(words) + 1e-10) for count in ...)\<close>:
  the generator is consumed from the left, the running total starts at 0, and each
  element looks the attribute up before it can contribute. The looked-up attribute is
  the first argument, the number of words the second.
\<close>

fun sum_terms :: "(py_error + (real \<Rightarrow> real)) \<Rightarrow> nat \<Rightarrow> real \<Rightarrow> nat list \<Rightarrow> py_error + real" where
  "sum_terms attr n acc [] = Inr acc"
| "sum_terms attr n acc (count # counts) =
     (case attr of
        Inl e \<Rightarrow> Inl e
      | Inr lg \<Rightarrow>
          sum_terms attr n
            (acc + (real count / real n) * lg (real count / real n + 1 / 10 ^ 10)) counts)"

text \<open>The dictionary that \<open>run\<close> emits through the \<open>finished\<close> signal.\<close>

record stats =
  invisible_chars :: nat
  details :: "pystr list"
  word_entropy :: real
  ai_likelihood :: string
  top_words :: "pystr list"

definition scan_words :: "unicode_db \<Rightarrow> pystr \<Rightarrow> pystr list" where
  "scan_words db t = findall_words (is_word db) (str_lower db t)"

definition scan_entropy :: "pystr list \<Rightarrow> py_error + real" where
  "scan_entropy words =
     (if words \<noteq> [] then
        (case sum_terms re_log2 (length words) 0 (map snd (Counter words)) of
           Inl e \<Rightarrow> Inl e
         | Inr s \<Rightarrow> Inr (- s))
      else Inr 0)"

text \<open>
  \<open>run\<close>: \<open>Inr\<close> is the dictionary emitted, \<open>Inl\<close> the exception that ends the thread's
  \<open>run\<close> before \<open>finished.emit\<close> is reached. Starting the thread (\<open>scan_watermarks\<close>)
  and showing the dictionary (\<open>on_scan_finished\<close>) are left to the window.
\<close>

definition run :: "unicode_db \<Rightarrow> pystr \<Rightarrow> py_error + stats" where
  "run db t =
     (let found = map (\<lambda>(pos, char). describe db char) (finditer unicode_pattern 0 t);
          words = scan_words db t;
          word_counter = Counter words;
          top = map fst (most_common 10 word_counter)
      in case scan_entropy words of
           Inl e \<Rightarrow> Inl e
         | Inr entropy \<Rightarrow>
             Inr \<lparr>invisible_chars = length found,
                  details = take 10 found,
                  word_entropy = entropy,
                  ai_likelihood = (if entropy < 4.5 then ''High'' else ''Low''),
                  top_words = top\<rparr>)"

text \<open>
  The WatermarkReferenceSet as the specification lists it, to compare the scan pattern
  with.
\<close>

definition WatermarkReferenceSet :: "codepoint set" where
  "WatermarkReferenceSet =
     {0x200B, 0x200C, 0x200D, 0x202F, 0x00A0, 0x2060, 0xFEFF, 0x2014, 0x2013}"

section \<open>WhitespaceCleaner\<close>

text \<open>
  The part of the window's state that the handlers read and write. \<open>input_text\<close> and
  \<open>output_text\<close> hold what \<open>toPlainText()\<close> returns, \<open>warnings\<close> the message boxes shown
  so far (title and message), \<open>stats_label\<close> the three counts that \<open>update_stats\<close>
  formats into the label. The \<open>textChanged\<close> signal calls \<open>update_stats\<close> once more
  after every \<open>setPlainText\<close>; each handler that sets the text calls \<open>update_stats\<close>
  itself afterwards, so that extra call leaves no trace and is not written out.
\<close>

record cleaner =
  input_text :: pystr
  output_text :: pystr
  detailed_stats :: pystr
  stats_label :: "nat \<times> nat \<times> nat"
  status_bar :: string
  warnings :: "(string \<times> string) list"
  history :: "pystr list"
  history_index :: int

text \<open>The check boxes, the combo box (\<open>int(self.tab_spaces.currentText())\<close>) and the two line edits.\<close>

record options =
  remove_spaces :: bool
  remove_tabs :: bool
  remove_newlines :: bool
  trim_lines :: bool
  remove_invisible :: bool
  replace_tabs :: bool
  tab_spaces :: nat
  regex_input :: pystr
  regex_replace :: pystr

text \<open>
  The regular-expression engine behind the custom pattern is not part of the
  repository: compiling a pattern and substituting with a compiled pattern are
  parameters. \<open>re.sub(pattern, repl, string)\<close> compiles, then substitutes.
\<close>

record 'rx re_engine =
  re_compile :: "pystr \<Rightarrow> py_error + 'rx"
  rx_sub :: "'rx \<Rightarrow> pystr \<Rightarrow> pystr \<Rightarrow> py_error + pystr"

definition re_sub :: "'rx re_engine \<Rightarrow> pystr \<Rightarrow> pystr \<Rightarrow> pystr \<Rightarrow> py_error + pystr" where
  "re_sub eng pattern repl s =
     (case re_compile eng pattern of
        Inl e \<Rightarrow> Inl e
      | Inr rx \<Rightarrow> rx_sub eng rx repl s)"

text \<open>The state \<open>__init__\<close> builds.\<close>

definition init :: cleaner where
  "init = \<lparr>input_text = [], output_text = [], detailed_stats = [], stats_label = (0, 0, 0),
            status_bar = ''Ready'', warnings = [], history = [], history_index = - 1\<rparr>"

definition warning :: "string \<Rightarrow> string \<Rightarrow> cleaner \<Rightarrow> cleaner" where
  "warning title message st = st\<lparr>warnings := warnings st @ [(title, message)]\<rparr>"

definition showMessage :: "string \<Rightarrow> cleaner \<Rightarrow> cleaner" where
  "showMessage message st = st\<lparr>status_bar := message\<rparr>"

text \<open>\<open>str.replace(old, new)\<close> where \<open>old\<close> is one character, as at every call in the source.\<close>

definition replace :: "codepoint \<Rightarrow> pystr \<Rightarrow> pystr \<Rightarrow> pystr" where
  "replace old new t = concat (map (\<lambda>c. if c = old then new else [c]) t)"

text \<open>\<open>re.sub\<close> with a one-character class and a function of the matched character.\<close>

definition re_sub_class :: "codepoint list \<Rightarrow> (codepoint \<Rightarrow> pystr) \<Rightarrow> pystr \<Rightarrow> pystr" where
  "re_sub_class cls repl t = concat (map (\<lambda>c. if c \<in> set cls then repl c else [c]) t)"

text \<open>
  \<open>re.sub\<close> with a pattern \<open>X+\<close> for a character class \<open>X\<close> and a constant replacement:
  every maximal run of class members becomes one copy of the replacement.
\<close>

function re_sub_runs :: "(codepoint \<Rightarrow> bool) \<Rightarrow> pystr \<Rightarrow> pystr \<Rightarrow> pystr" where
  "re_sub_runs X repl [] = []"
| "re_sub_runs X repl (c # cs) =
     (if X c then repl @ re_sub_runs X repl (dropWhile X cs)
      else c # re_sub_runs X repl cs)"
  by pat_completeness auto
termination
  by (relation "measure (\<lambda>(X, repl, cs). length cs)") (auto simp: length_dropWhile_le less_Suc_eq_le)

text \<open>
  The whitespace of \<open>\s\<close> and of \<open>str.strip()\<close> (CPython's \<open>Py_UNICODE_ISSPACE\<close>), and
  the line boundaries of \<open>str.splitlines()\<close>.
\<close>

definition isspace :: "codepoint \<Rightarrow> bool" where
  "isspace c =
     ((0x09 \<le> c \<and> c \<le> 0x0D) \<or> (0x1C \<le> c \<and> c \<le> 0x20) \<or> c = 0x85 \<or> c = 0xA0 \<or> c = 0x1680
      \<or> (0x2000 \<le> c \<and> c \<le> 0x200A) \<or> c = 0x2028 \<or> c = 0x2029 \<or> c = 0x202F \<or> c = 0x205F
      \<or> c = 0x3000)"

definition is_linebreak :: "codepoint \<Rightarrow> bool" where
  "is_linebreak c =
     ((0x0A \<le> c \<and> c \<le> 0x0D) \<or> (0x1C \<le> c \<and> c \<le> 0x1E) \<or> c = 0x85 \<or> c = 0x2028 \<or> c = 0x2029)"

text \<open>
  \<open>splitlines\<close>: the first argument is the line read so far. A carriage return followed
  by a line feed is one boundary; a boundary at the very end opens no further line.
\<close>

fun splitlines_from :: "pystr \<Rightarrow> pystr \<Rightarrow> pystr list" where
  "splitlines_from line [] = (if line = [] then [] else [line])"
| "splitlines_from line [c] = (if is_linebreak c then [line] else [line @ [c]])"
| "splitlines_from line (c # d # cs) =
     (if c = 0x0D \<and> d = 0x0A then line # splitlines_from [] cs
      else if is_linebreak c then line # splitlines_from [] (d # cs)
      else splitlines_from (line @ [c]) (d # cs))"

definition splitlines :: "pystr \<Rightarrow> pystr list" where
  "splitlines t = splitlines_from [] t"

definition strip :: "pystr \<Rightarrow> pystr" where
  "strip t = rev (dropWhile isspace (rev (dropWhile isspace t)))"

fun join :: "pystr \<Rightarrow> pystr list \<Rightarrow> pystr" where
  "join sep [] = []"
| "join sep [l] = l"
| "join sep (l # ls) = l @ sep @ join sep ls"

subsection \<open>update_stats and detect_whitespace\<close>

definition update_stats :: "cleaner \<Rightarrow> cleaner" where
  "update_stats st =
     (let t = input_text st;
          spaces = count_list t 0x20;
          tabs = count_list t 0x09;
          newlines = count_list t 0x0A
      in showMessage ''Statistics updated'' (st\<lparr>stats_label := (spaces, tabs, newlines)\<rparr>))"

text \<open>
  The callback of \<open>detect_whitespace\<close>: the reference mark U+203B for the narrow
  no-break space, the diamond U+25C6 for the two characters of its list, and the matched
  character itself otherwise.
\<close>

definition replace_invisible :: "codepoint \<Rightarrow> pystr" where
  "replace_invisible char =
     (if char = 0x202F then [0x203B]
      else if char \<in> set [0x200B, 0xFEFF] then [0x25C6]
      else [char])"

text \<open>
  The text \<open>detect_whitespace\<close> displays: middle dot U+00B7 for a space, arrow U+2192
  for a tab, pilcrow U+00B6 before every newline, then the callback on every character
  of the class.
\<close>

definition visible_text :: "pystr \<Rightarrow> pystr" where
  "visible_text t =
     (let v = replace 0x20 [0xB7] t;
          v = replace 0x09 [0x2192] v;
          v = replace 0x0A [0xB6, 0x0A] v
      in re_sub_class unicode_pattern replace_invisible v)"

definition detect_whitespace :: "cleaner \<Rightarrow> cleaner" where
  "detect_whitespace st =
     (let t = input_text st
      in if t = [] then warning ''Warning'' ''Input text is empty!'' st
         else showMessage ''Whitespace and watermarks detected'' (st\<lparr>output_text := visible_text t\<rparr>))"

subsection \<open>clean_whitespace\<close>

text \<open>The built-in rules, in the order of the source, each behind its check box.\<close>

definition builtin_rules :: "options \<Rightarrow> pystr \<Rightarrow> pystr" where
  "builtin_rules opts t =
     (let t = (if remove_spaces opts then re_sub_runs isspace [0x20] t else t);
          t = (if remove_tabs opts then replace 0x09 [] t else t);
          t = (if replace_tabs opts then replace 0x09 (replicate (tab_spaces opts) 0x20) t else t);
          t = (if remove_newlines opts then re_sub_runs (\<lambda>c. c = 0x0A) [0x0A] t else t);
          t = (if trim_lines opts then join [0x0A] (map strip (splitlines t)) else t);
          t = (if remove_invisible opts then re_sub_class unicode_pattern (\<lambda>c. [0x20]) t else t)
      in t)"

text \<open>
  The custom rule: skipped when the pattern field is empty; otherwise the result of
  \<open>re.sub\<close>, which may raise.
\<close>

definition custom_rule :: "'rx re_engine \<Rightarrow> options \<Rightarrow> pystr \<Rightarrow> py_error + pystr" where
  "custom_rule eng opts t =
     (if regex_input opts \<noteq> [] then re_sub eng (regex_input opts) (regex_replace opts) t
      else Inr t)"

text \<open>
  Python's \<open>xs[:k]\<close> and \<open>xs[i]\<close>: a negative bound or index counts from the end, a slice
  clamps, an index out of range raises.
\<close>

definition py_slice_to :: "'a list \<Rightarrow> int \<Rightarrow> 'a list" where
  "py_slice_to xs k = (if k < 0 then take (nat (int (length xs) + k)) xs else take (nat k) xs)"

definition py_getitem :: "'a list \<Rightarrow> int \<Rightarrow> py_error + 'a" where
  "py_getitem xs i =
     (if 0 \<le> i \<and> i < int (length xs) then Inr (xs ! nat i)
      else if i < 0 \<and> - int (length xs) \<le> i then Inr (xs ! nat (int (length xs) + i))
      else Inl IndexError)"

text \<open>The three statements under \<open># Save to history\<close>.\<close>

definition save_history :: "pystr \<Rightarrow> cleaner \<Rightarrow> cleaner" where
  "save_history original_text st =
     st\<lparr>history := py_slice_to (history st) (history_index st + 1) @ [original_text],
        history_index := history_index st + 1\<rparr>"

text \<open>
  \<open>clean_whitespace\<close>. Only \<open>re.error\<close> is caught; any other exception of the custom
  rule leaves the handler.
\<close>

definition clean_whitespace :: "'rx re_engine \<Rightarrow> options \<Rightarrow> cleaner \<Rightarrow> py_error + cleaner" where
  "clean_whitespace eng opts st =
     (let t = input_text st
      in if t = [] then Inr (warning ''Warning'' ''Input text is empty!'' st)
         else
           (let original_text = t
            in case custom_rule eng opts (builtin_rules opts t) of
                 Inl ReError \<Rightarrow> Inr (warning ''Error'' ''Invalid regex pattern!'' st)
               | Inl e \<Rightarrow> Inl e
               | Inr cleaned \<Rightarrow>
                   Inr (showMessage ''Whitespace and watermarks cleaned''
                         (update_stats (detect_whitespace
                           ((save_history original_text st)\<lparr>input_text := cleaned\<rparr>))))))"

subsection \<open>undo, redo and clear_text\<close>

definition undo :: "cleaner \<Rightarrow> py_error + cleaner" where
  "undo st =
     (if history_index st > 0 then
        (let st = st\<lparr>history_index := history_index st - 1\<rparr>
         in case py_getitem (history st) (history_index st) of
              Inl e \<Rightarrow> Inl e
            | Inr snapshot \<Rightarrow>
                Inr (showMessage ''Undo applied''
                      (update_stats (detect_whitespace (st\<lparr>input_text := snapshot\<rparr>)))))
      else Inr st)"

definition redo :: "cleaner \<Rightarrow> py_error + cleaner" where
  "redo st =
     (if history_index st < int (length (history st)) - 1 then
        (let st = st\<lparr>history_index := history_index st + 1\<rparr>
         in case py_getitem (history st) (history_index st) of
              Inl e \<Rightarrow> Inl e
            | Inr snapshot \<Rightarrow>
                Inr (showMessage ''Redo applied''
                      (update_stats (detect_whitespace (st\<lparr>input_text := snapshot\<rparr>)))))
      else Inr st)"

definition clear_text :: "cleaner \<Rightarrow> cleaner" where
  "clear_text st =
     showMessage ''Cleared''
       (update_stats
         (st\<lparr>input_text := [], output_text := [], detailed_stats := [],
             history := [], history_index := - 1\<rparr>))"

text \<open>
  The operations on the history, to run sequences of them: recording a snapshot (the
  statements of \<open>save_history\<close>), undo, redo and clear.
\<close>

datatype history_op = Record pystr | Undo | Redo | Clear

fun apply_op :: "cleaner \<Rightarrow> history_op \<Rightarrow> py_error + cleaner" where
  "apply_op st (Record snapshot) = Inr (save_history snapshot st)"
| "apply_op st Undo = undo st"
| "apply_op st Redo = redo st"
| "apply_op st Clear = Inr (clear_text st)"

fun apply_ops :: "cleaner \<Rightarrow> history_op list \<Rightarrow> py_error + cleaner" where
  "apply_ops st [] = Inr st"
| "apply_ops st (x # xs) =
     (case apply_op st x of Inl e \<Rightarrow> Inl e | Inr st' \<Rightarrow> apply_ops st' xs)"

text \<open>
  A stand-in engine to run the model. As CPython does, it rejects the pattern \<open>(\<close>,
  whose group is never closed, with \<open>re.error\<close>, and the pattern \<open>a{99999999999}\<close>,
  whose repetition count is too large, with \<open>OverflowError\<close>; it substitutes a
  one-character pattern literally.
\<close>

definition sample_engine :: "pystr re_engine" where
  "sample_engine =
     \<lparr>re_compile = (\<lambda>p. if p = lit ''('' then Inl ReError
                         else if p = lit ''a{99999999999}'' then Inl OverflowError
                         else Inr p),
      rx_sub = (\<lambda>rx repl s. case rx of [c] \<Rightarrow> Inr (replace c repl s) | _ \<Rightarrow> Inr s)\<rparr>"

text \<open>
  The glyphs that \<open>UnicodeHighlighter\<close> colours (the patterns of its highlighting
  rules), and the characters \<open>detect_whitespace\<close> searches for: space, tab, newline and
  the class.
\<close>

definition marker_glyphs :: "codepoint list" where
  "marker_glyphs = [0xB7, 0x2192, 0xB6, 0x25C6, 0x203B]"

definition substituted :: "codepoint list" where
  "substituted = [0x20, 0x09, 0x0A] @ unicode_pattern"

text \<open>The invariant of the history: the cursor is \<open>-1\<close> or the index of an entry.\<close>

definition history_inv :: "cleaner \<Rightarrow> bool" where
  "history_inv st = (- 1 \<le> history_index st \<and> history_index st \<le> int (length (history st)) - 1)"

section \<open>Properties of the scan\<close>

lemma unicode_pattern_is_reference_set: "set unicode_pattern = WatermarkReferenceSet"
  by (simp add: unicode_pattern_def WatermarkReferenceSet_def)

lemma finditer_chars: "map snd (finditer cls pos t) = filter (\<lambda>c. c \<in> set cls) t"
  by (induction t arbitrary: pos) simp_all

lemma finditer_positions:
  "map fst (finditer cls pos t) = filter (\<lambda>i. t ! (i - pos) \<in> set cls) [pos ..< pos + length t]"
proof (induction t arbitrary: pos)
  case Nil
  then show ?case by simp
next
  case (Cons c cs)
  have shift: "filter (\<lambda>i. (c # cs) ! (i - pos) \<in> set cls) [Suc pos ..< Suc pos + length cs]
             = filter (\<lambda>i. cs ! (i - Suc pos) \<in> set cls) [Suc pos ..< Suc pos + length cs]"
  proof (rule filter_cong)
    fix i assume "i \<in> set [Suc pos ..< Suc pos + length cs]"
    then have "i - pos = Suc (i - Suc pos)" by auto
    then show "((c # cs) ! (i - pos) \<in> set cls) = (cs ! (i - Suc pos) \<in> set cls)"
      by simp
  qed simp
  have "[pos ..< Suc (pos + length cs)] = pos # [Suc pos ..< Suc (pos + length cs)]"
    by (rule upt_conv_Cons) simp
  then have "[pos ..< pos + length (c # cs)] = pos # [Suc pos ..< Suc pos + length cs]"
    by simp
  then show ?case
    using Cons.IH [of "Suc pos"] shift by simp
qed

lemma sum_terms_no_attr: "counts \<noteq> [] \<Longrightarrow> sum_terms (Inl e) n acc counts = Inl e"
  by (cases counts) simp_all

lemma counter_add_nonempty: "counter_add w kvs \<noteq> []"
  by (cases kvs) (auto split: if_splits)

lemma Counter_nonempty_aux: "kvs \<noteq> [] \<Longrightarrow> foldl (\<lambda>acc w. counter_add w acc) kvs ws \<noteq> []"
  by (induction ws arbitrary: kvs) (simp_all add: counter_add_nonempty)

lemma Counter_nonempty: "ws \<noteq> [] \<Longrightarrow> Counter ws \<noteq> []"
  by (cases ws) (simp_all add: Counter_def Counter_nonempty_aux counter_add_nonempty)

lemma scan_entropy_words: "words \<noteq> [] \<Longrightarrow> scan_entropy words = Inl AttributeError"
  by (simp add: scan_entropy_def re_log2_def sum_terms_no_attr Counter_nonempty)

lemma scan_entropy_no_words: "scan_entropy [] = Inr 0"
  by (simp add: scan_entropy_def)

lemma findall_words_nonempty_iff: "findall_words w t \<noteq> [] \<longleftrightarrow> (\<exists>c \<in> set t. w c)"
  by (induction t) auto

lemma run_no_words:
  "scan_words db t = [] \<Longrightarrow>
   run db t = Inr \<lparr>invisible_chars = length (filter (\<lambda>c. c \<in> WatermarkReferenceSet) t),
                  details = take 10 (map (describe db) (filter (\<lambda>c. c \<in> WatermarkReferenceSet) t)),
                  word_entropy = 0, ai_likelihood = ''High'', top_words = []\<rparr>"
proof -
  assume w: "scan_words db t = []"
  have m: "map (\<lambda>(pos, char). describe db char) (finditer unicode_pattern 0 t)
      = map (describe db) (filter (\<lambda>c. c \<in> WatermarkReferenceSet) t)"
  proof -
    have "map (\<lambda>(pos, char). describe db char) (finditer unicode_pattern 0 t)
        = map (describe db) (map snd (finditer unicode_pattern 0 t))"
      by (simp add: case_prod_unfold)
    then show ?thesis
      by (simp only: finditer_chars unicode_pattern_is_reference_set)
  qed
  show ?thesis
    unfolding run_def Let_def w m
    by (simp add: scan_entropy_no_words Counter_def most_common_def)
qed

lemma run_words: "scan_words db t \<noteq> [] \<Longrightarrow> run db t = Inl AttributeError"
  by (simp add: run_def Let_def scan_entropy_words)

lemma run_Inr_no_words: "run db t = Inr r \<Longrightarrow> scan_words db t = []"
  using run_words [of db t] by (cases "scan_words db t = []") simp_all

lemma sample_words_none: "scan_words sample_db [0x200B, 0x20, 0x202F] = []"
  by (simp add: scan_words_def sample_db_def ascii_lower_def ascii_word_def)

text \<open>
  For every text, the occurrence pass finds as many matches as the text has code points
  in the WatermarkReferenceSet, at exactly the positions that hold one, in increasing
  order. Whenever \<open>run\<close> emits its dictionary, \<open>invisible_chars\<close> is that number and
  \<open>details\<close> are the first ten members, described, in the order of the text.
\<close>

lemma occurrence_pass_count_and_order:
  "length (finditer unicode_pattern 0 t) = length (filter (\<lambda>c. c \<in> WatermarkReferenceSet) t)
   \<and> map fst (finditer unicode_pattern 0 t)
       = filter (\<lambda>i. t ! i \<in> WatermarkReferenceSet) [0 ..< length t]
   \<and> map snd (finditer unicode_pattern 0 t) = filter (\<lambda>c. c \<in> WatermarkReferenceSet) t
   \<and> (run db t = Inr r \<longrightarrow>
         invisible_chars r = length (filter (\<lambda>c. c \<in> WatermarkReferenceSet) t)
       \<and> details r
           = take 10 (map (describe db) (filter (\<lambda>c. c \<in> WatermarkReferenceSet) t)))"
proof -
  have chars: "map snd (finditer unicode_pattern 0 t) = filter (\<lambda>c. c \<in> WatermarkReferenceSet) t"
    by (simp only: finditer_chars unicode_pattern_is_reference_set)
  have "length (map snd (finditer unicode_pattern 0 t))
      = length (filter (\<lambda>c. c \<in> WatermarkReferenceSet) t)"
    by (simp only: chars)
  then have count: "length (finditer unicode_pattern 0 t)
      = length (filter (\<lambda>c. c \<in> WatermarkReferenceSet) t)"
    by simp
  have positions: "map fst (finditer unicode_pattern 0 t)
           = filter (\<lambda>i. t ! i \<in> WatermarkReferenceSet) [0 ..< length t]"
    using finditer_positions [of unicode_pattern 0 t]
    by (simp add: unicode_pattern_is_reference_set)
  have report: "invisible_chars r = length (filter (\<lambda>c. c \<in> WatermarkReferenceSet) t)
       \<and> details r = take 10 (map (describe db) (filter (\<lambda>c. c \<in> WatermarkReferenceSet) t))"
    if emitted: "run db t = Inr r"
  proof -
    have "scan_words db t = []" using emitted by (rule run_Inr_no_words)
    from run_no_words [OF this] emitted have
      "r = \<lparr>invisible_chars = length (filter (\<lambda>c. c \<in> WatermarkReferenceSet) t),
            details = take 10 (map (describe db) (filter (\<lambda>c. c \<in> WatermarkReferenceSet) t)),
            word_entropy = 0, ai_likelihood = ''High'', top_words = []\<rparr>"
      by simp
    then show ?thesis by simp
  qed
  from count positions chars report show ?thesis by blast
qed

lemma occurrence_pass_sample:
  "run sample_db [0x200B, 0x20, 0x202F]
     = Inr \<lparr>invisible_chars = 2,
            details = [0x200B # lit '' (U+200B: ZERO WIDTH SPACE)'',
                       0x202F # lit '' (U+202F: NARROW NO-BREAK SPACE)''],
            word_entropy = 0, ai_likelihood = ''High'', top_words = []\<rparr>
   \<and> length (filter (\<lambda>c. c \<in> WatermarkReferenceSet) [0x200B, 0x20, 0x202F]) = 2
   \<and> finditer unicode_pattern 0 [0x200B, 0x20, 0x202F] = [(0, 0x200B), (2, 0x202F)]"
proof -
  let ?R = "\<lparr>invisible_chars = 2,
            details = [0x200B # lit '' (U+200B: ZERO WIDTH SPACE)'',
                       0x202F # lit '' (U+202F: NARROW NO-BREAK SPACE)''],
            word_entropy = 0, ai_likelihood = ''High'', top_words = []\<rparr>"
  have r: "run sample_db [0x200B, 0x20, 0x202F] = Inr ?R"
    unfolding run_no_words [OF sample_words_none]
    by (simp add: WatermarkReferenceSet_def describe_def sample_db_def reference_name_def
        format_04X_def hex_digits.simps hex_digit_def lit_def)
  have m: "finditer unicode_pattern 0 [0x200B, 0x20, 0x202F] = [(0, 0x200B), (2, 0x202F)]"
    by (simp add: unicode_pattern_def)
  from occurrence_pass_count_and_order [of "[0x200B, 0x20, 0x202F]" sample_db ?R] r
  have "invisible_chars ?R = length (filter (\<lambda>c. c \<in> WatermarkReferenceSet) [0x200B, 0x20, 0x202F])"
    by blast
  then have "length (filter (\<lambda>c. c \<in> WatermarkReferenceSet) [0x200B, 0x20, 0x202F]) = 2"
    by simp
  with r m show ?thesis by blast
qed

text \<open>
  The dictionary is emitted for exactly the texts whose lower-cased form has no word
  character.
\<close>

lemma run_emits_iff:
  "(\<exists>r. run db t = Inr r) \<longleftrightarrow> (\<forall>c \<in> set (str_lower db t). \<not> is_word db c)"
proof
  assume "\<exists>r. run db t = Inr r"
  then have "scan_words db t = []" by (auto dest: run_Inr_no_words)
  then show "\<forall>c \<in> set (str_lower db t). \<not> is_word db c"
    using findall_words_nonempty_iff [of "is_word db" "str_lower db t"]
    by (simp add: scan_words_def)
next
  assume "\<forall>c \<in> set (str_lower db t). \<not> is_word db c"
  then have "scan_words db t = []"
    using findall_words_nonempty_iff [of "is_word db" "str_lower db t"]
    by (simp add: scan_words_def)
  then show "\<exists>r. run db t = Inr r" by (simp add: run_no_words)
qed

text \<open>
  Claim C1 at the text \<open>a\<close> followed by U+200B: one code point of the text belongs to
  the WatermarkReferenceSet and the occurrence pass finds it, but the text has a word
  token, so \<open>run\<close> ends with the exception of the entropy expression and reports no
  count at all.
\<close>

theorem scan_count_lost_with_word:
  "length (filter (\<lambda>c. c \<in> WatermarkReferenceSet) [0x61, 0x200B]) = 1
   \<and> finditer unicode_pattern 0 [0x61, 0x200B] = [(1, 0x200B)]
   \<and> scan_words sample_db [0x61, 0x200B] = [[0x61]]
   \<and> run sample_db [0x61, 0x200B] = Inl AttributeError"
proof -
  have w: "scan_words sample_db [0x61, 0x200B] = [[0x61]]"
    by (simp add: scan_words_def sample_db_def ascii_lower_def ascii_word_def)
  have "run sample_db [0x61, 0x200B] = Inl AttributeError"
    using run_words [of sample_db "[0x61, 0x200B]"] w by simp
  with w show ?thesis
    by (simp add: WatermarkReferenceSet_def unicode_pattern_def)
qed

text \<open>
  Claim C3. If the lower-cased text holds a word character, the scan finds at least one
  word token, the entropy expression reaches \<open>re.log2\<close>, and \<open>run\<close> ends with
  \<open>AttributeError\<close>: nothing is emitted.
\<close>

theorem scan_raises_on_words:
  assumes "\<exists>c \<in> set (str_lower db t). is_word db c"
  shows "scan_words db t \<noteq> [] \<and> run db t = Inl AttributeError"
proof -
  have "scan_words db t \<noteq> []"
    using assms by (simp add: scan_words_def findall_words_nonempty_iff)
  then show ?thesis by (simp add: run_words)
qed

theorem scan_raises_on_words_witness:
  "(\<exists>c \<in> set (str_lower sample_db (lit ''Hello world'')). is_word sample_db c)
   \<and> scan_words sample_db (lit ''Hello world'') = [lit ''hello'', lit ''world'']
   \<and> run sample_db (lit ''Hello world'') = Inl AttributeError"
proof -
  have h: "\<exists>c \<in> set (str_lower sample_db (lit ''Hello world'')). is_word sample_db c"
    by (simp add: sample_db_def ascii_lower_def ascii_word_def lit_def)
  have "scan_words sample_db (lit ''Hello world'') = [lit ''hello'', lit ''world'']"
    by (simp add: scan_words_def sample_db_def ascii_lower_def ascii_word_def lit_def)
  then show ?thesis
    using h scan_raises_on_words [OF h] by simp
qed

text \<open>
  Claim C2 at the text \<open>the cat\<close>: two word tokens, and the entropy expression raises
  instead of giving a number, so neither an entropy nor a label is reported.
\<close>

theorem entropy_raises_the_cat:
  "scan_words sample_db (lit ''the cat'') = [lit ''the'', lit ''cat'']
   \<and> scan_entropy [lit ''the'', lit ''cat''] = Inl AttributeError
   \<and> run sample_db (lit ''the cat'') = Inl AttributeError"
proof -
  have w: "scan_words sample_db (lit ''the cat'') = [lit ''the'', lit ''cat'']"
    by (simp add: scan_words_def sample_db_def ascii_lower_def ascii_word_def lit_def)
  then show ?thesis
    using run_words [of sample_db "lit ''the cat''"] scan_entropy_words [of "[lit ''the'', lit ''cat'']"]
    by simp
qed

text \<open>
  Claim C10 at the text \<open>a\<close>: the word multiset is not empty, and the scan ends with the
  exception; there is no entropy to bound.
\<close>

theorem entropy_raises_single_word:
  "scan_words sample_db (lit ''a'') = [lit ''a'']
   \<and> run sample_db (lit ''a'') = Inl AttributeError"
proof -
  have w: "scan_words sample_db (lit ''a'') = [lit ''a'']"
    by (simp add: scan_words_def sample_db_def ascii_lower_def ascii_word_def lit_def)
  then show ?thesis
    using run_words [of sample_db "lit ''a''"] by simp
qed

text \<open>
  The expression itself, had the attribute been the logarithm to base 2: for a text of
  one word the term is \<open>1 * log2(1 + 1e-10)\<close>, so the negated sum is below zero.
\<close>

lemma sum_terms_one_word_with_log:
  "\<exists>s. sum_terms (Inr (log 2)) 1 0 [1] = Inr s \<and> - s < 0"
  by simp

section \<open>Properties of the rendering\<close>

lemma replace_append: "replace old new (xs @ ys) = replace old new xs @ replace old new ys"
  by (simp add: replace_def)

lemma re_sub_class_append:
  "re_sub_class cls f (xs @ ys) = re_sub_class cls f xs @ re_sub_class cls f ys"
  by (simp add: re_sub_class_def)

lemma visible_text_append: "visible_text (xs @ ys) = visible_text xs @ visible_text ys"
  by (simp add: visible_text_def Let_def replace_append re_sub_class_append)

lemma visible_text_Nil: "visible_text [] = []"
  by (simp add: visible_text_def replace_def re_sub_class_def)

lemma visible_text_single:
  "visible_text [c] =
     (if c = 0x20 then [0xB7] else if c = 0x09 then [0x2192] else if c = 0x0A then [0xB6, 0x0A]
      else if c = 0x202F then [0x203B] else if c = 0x200B \<or> c = 0xFEFF then [0x25C6] else [c])"
  by (simp add: visible_text_def Let_def replace_def re_sub_class_def unicode_pattern_def
      replace_invisible_def)

lemma visible_text_at:
  "visible_text (xs @ c # ys) = visible_text xs @ visible_text [c] @ visible_text ys"
  using visible_text_append [of xs "[c] @ ys"] visible_text_append [of "[c]" ys] by simp

text \<open>
  Claim C4, as the code has it. At every position of every text, the display shows the
  reference mark for the narrow no-break space U+202F and the diamond for U+200B and
  U+FEFF; the no-break space U+00A0, the em dash U+2014 and the en dash U+2013 are
  matched by the class but handed back by the callback as they are.
\<close>

theorem render_marks_three_code_points:
  "visible_text (xs @ 0x202F # ys) = visible_text xs @ 0x203B # visible_text ys
   \<and> visible_text (xs @ 0x200B # ys) = visible_text xs @ 0x25C6 # visible_text ys
   \<and> visible_text (xs @ 0xFEFF # ys) = visible_text xs @ 0x25C6 # visible_text ys
   \<and> visible_text (xs @ 0x00A0 # ys) = visible_text xs @ 0x00A0 # visible_text ys
   \<and> visible_text (xs @ 0x2014 # ys) = visible_text xs @ 0x2014 # visible_text ys
   \<and> visible_text (xs @ 0x2013 # ys) = visible_text xs @ 0x2013 # visible_text ys"
  by (simp add: visible_text_at visible_text_single)

text \<open>An em dash is displayed as an em dash, not as the diamond.\<close>

theorem render_em_dash_counterexample: "visible_text [0x2014] \<noteq> [0x25C6]"
  by (simp add: visible_text_single)

text \<open>
  The callback lists two zero-width characters only: U+200C, U+200D and U+2060 reach
  its last branch and are displayed unchanged as well.
\<close>

lemma visible_text_other_zero_width:
  "visible_text [0x200C, 0x200D, 0x2060] = [0x200C, 0x200D, 0x2060]"
  using visible_text_at [of "[0x200C]" "0x200D" "[0x2060]"] by (simp add: visible_text_single)

lemma replace_single: "replace old new [c] = (if c = old then new else [c])"
  by (simp add: replace_def)

lemma visible_text_twice_single:
  "visible_text (visible_text [c]) = replace 0x0A [0xB6, 0x0A] (visible_text [c])"
proof -
  have two: "visible_text [0xB6, 0x0A] = [0xB6, 0xB6, 0x0A]"
    using visible_text_at [of "[]" "0xB6" "[0x0A]"] by (simp add: visible_text_single visible_text_Nil)
  have r2: "replace 0x0A [0xB6, 0x0A] [0xB6, 0x0A] = [0xB6, 0xB6, 0x0A]"
    by (simp add: replace_def)
  show ?thesis
    by (simp add: visible_text_single [of c] two r2 replace_single)
      (simp add: visible_text_single)
qed

lemma visible_text_twice:
  "visible_text (visible_text t) = replace 0x0A [0xB6, 0x0A] (visible_text t)"
proof (induction t)
  case Nil
  then show ?case by (simp add: visible_text_Nil replace_def)
next
  case (Cons c cs)
  have "visible_text (c # cs) = visible_text [c] @ visible_text cs"
    using visible_text_append [of "[c]" cs] by simp
  then show ?case
    using Cons.IH by (simp add: visible_text_append replace_append visible_text_twice_single)
qed

text \<open>
  Claim C9. The five marker glyphs are none of the characters \<open>detect_whitespace\<close>
  searches for; a marker glyph at any position of any text is displayed as itself; and
  displaying a displayed text changes nothing but its real newlines, each of which gets
  its pilcrow again.
\<close>

theorem markers_pass_through_render:
  "set marker_glyphs \<inter> set substituted = {}
   \<and> (\<forall>g \<in> set marker_glyphs. \<forall>xs ys.
         visible_text (xs @ g # ys) = visible_text xs @ g # visible_text ys)
   \<and> visible_text (visible_text t) = replace 0x0A [0xB6, 0x0A] (visible_text t)"
proof -
  have "set marker_glyphs \<inter> set substituted = {}"
    by (simp add: marker_glyphs_def substituted_def unicode_pattern_def)
  moreover have "\<forall>g \<in> set marker_glyphs. \<forall>xs ys.
         visible_text (xs @ g # ys) = visible_text xs @ g # visible_text ys"
    by (simp add: marker_glyphs_def visible_text_at visible_text_single)
  ultimately show ?thesis
    by (simp add: visible_text_twice)
qed


theorem markers_pass_through_render_witness:
  "0x203B \<in> set marker_glyphs
   \<and> visible_text [0x20, 0x202F, 0x0A] = [0xB7, 0x203B, 0xB6, 0x0A]
   \<and> visible_text ([0xB7] @ 0x203B # [0xB6, 0x0A]) = [0xB7, 0x203B, 0xB6, 0xB6, 0x0A]"
proof -
  have g: "0x203B \<in> set marker_glyphs" by (simp add: marker_glyphs_def)
  have a: "visible_text [0x20, 0x202F, 0x0A] = [0xB7, 0x203B, 0xB6, 0x0A]"
    by (simp add: visible_text_def Let_def replace_def re_sub_class_def unicode_pattern_def
      replace_invisible_def)
  have b: "visible_text [0xB7] = [0xB7]" "visible_text [0xB6, 0x0A] = [0xB6, 0xB6, 0x0A]"
    by (simp_all add: visible_text_def Let_def replace_def re_sub_class_def unicode_pattern_def
      replace_invisible_def)
  from markers_pass_through_render [of "[]"] g
  have "visible_text ([0xB7] @ 0x203B # [0xB6, 0x0A]) = visible_text [0xB7] @ 0x203B # visible_text [0xB6, 0x0A]"
    by blast
  with g a b show ?thesis by simp
qed

section \<open>Properties of cleaning\<close>

lemma replace_delete: "replace old [] t = filter (\<lambda>c. c \<noteq> old) t"
  by (induction t) (simp_all add: replace_def)

lemma set_re_sub_runs: "set (re_sub_runs X r t) \<subseteq> set r \<union> set t"
proof (induction X r t rule: re_sub_runs.induct)
  case (1 X repl)
  then show ?case by simp
next
  case (2 X repl c cs)
  show ?case
  proof (cases "X c")
    case True
    with 2 have "set (re_sub_runs X repl (dropWhile X cs)) \<subseteq> set repl \<union> set (dropWhile X cs)"
      by simp
    moreover have "set (dropWhile X cs) \<subseteq> set cs" by (auto dest: set_dropWhileD)
    ultimately show ?thesis using True by auto
  next
    case False
    with 2 show ?thesis by auto
  qed
qed

lemma set_splitlines_from:
  "l \<in> set (splitlines_from line t) \<Longrightarrow> set l \<subseteq> set line \<union> set t"
proof (induction line t arbitrary: l rule: splitlines_from.induct)
  case (1 line)
  then show ?case by (auto split: if_splits)
next
  case (2 line c)
  then show ?case by (auto split: if_splits)
next
  case (3 line c d cs)
  show ?case
  proof (cases "c = 0x0D \<and> d = 0x0A")
    case True
    with 3(4) have "l = line \<or> l \<in> set (splitlines_from [] cs)" by auto
    with 3(1) [OF True] show ?thesis by fastforce
  next
    case False
    show ?thesis
    proof (cases "is_linebreak c")
      case True
      with False 3(4) have "l = line \<or> l \<in> set (splitlines_from [] (d # cs))" by auto
      with 3(2) [OF False True] show ?thesis by fastforce
    next
      case nb: False
      with False 3(4) have "l \<in> set (splitlines_from (line @ [c]) (d # cs))" by auto
      with 3(3) [OF False nb] show ?thesis by fastforce
    qed
  qed
qed

lemma set_strip: "set (strip l) \<subseteq> set l"
proof
  fix x assume "x \<in> set (strip l)"
  then have "x \<in> set (dropWhile isspace (rev (dropWhile isspace l)))"
    by (simp add: strip_def)
  then have "x \<in> set (rev (dropWhile isspace l))" by (rule set_dropWhileD)
  then have "x \<in> set (dropWhile isspace l)" by simp
  then show "x \<in> set l" by (rule set_dropWhileD)
qed

lemma set_join: "x \<in> set (join sep ls) \<Longrightarrow> x \<in> set sep \<or> (\<exists>l \<in> set ls. x \<in> set l)"
  by (induction sep ls rule: join.induct) auto

lemma set_trim: "set (join [0x0A] (map strip (splitlines t))) \<subseteq> insert 0x0A (set t)"
proof
  fix x assume "x \<in> set (join [0x0A] (map strip (splitlines t)))"
  from set_join [OF this] have "x = 0x0A \<or> (\<exists>l \<in> set (splitlines t). x \<in> set (strip l))"
    by auto
  then show "x \<in> insert 0x0A (set t)"
  proof
    assume "x = 0x0A" then show ?thesis by simp
  next
    assume "\<exists>l \<in> set (splitlines t). x \<in> set (strip l)"
    then obtain l where l: "l \<in> set (splitlines t)" "x \<in> set (strip l)" by blast
    from l(2) set_strip have "x \<in> set l" by blast
    moreover from l(1) have "set l \<subseteq> set [] \<union> set t"
      unfolding splitlines_def by (rule set_splitlines_from)
    ultimately show ?thesis by auto
  qed
qed

lemma set_re_sub_class_const: "set (re_sub_class cls (\<lambda>c. [r]) t) \<subseteq> insert r (set t)"
  by (induction t) (auto simp: re_sub_class_def)

lemma replace_removes: "old \<notin> set (replace old [] t)"
  by (induction t) (simp_all add: replace_def)

lemma replace_no_old: "old \<notin> set t \<Longrightarrow> replace old new t = t"
  by (induction t) (simp_all add: replace_def)

lemma no_tab_collapse_newlines:
  "0x09 \<notin> set u \<Longrightarrow> 0x09 \<notin> set (re_sub_runs (\<lambda>c. c = 0x0A) [0x0A] u)"
  using set_re_sub_runs [of "\<lambda>c. c = 0x0A" "[0x0A]" u] by auto

lemma no_tab_trim:
  "0x09 \<notin> set u \<Longrightarrow> 0x09 \<notin> set (join [0x0A] (map strip (splitlines u)))"
  using set_trim [of u] by auto

lemma no_tab_invisible:
  "0x09 \<notin> set u \<Longrightarrow> 0x09 \<notin> set (re_sub_class unicode_pattern (\<lambda>c. [0x20]) u)"
  using set_re_sub_class_const [of unicode_pattern "0x20" u] by auto

lemma no_tab_after_strip:
  assumes "remove_tabs opts"
  shows "0x09 \<notin> set (builtin_rules opts t)"
proof -
  have e: "replace 0x09 new (replace 0x09 [] s) = replace 0x09 [] s" for new s
    by (rule replace_no_old) (rule replace_removes)
  show ?thesis
    unfolding builtin_rules_def Let_def using assms
    by (simp add: e replace_removes no_tab_collapse_newlines no_tab_trim no_tab_invisible)
qed

lemma strip_then_expand: "replace 0x09 new (replace 0x09 [] t) = replace 0x09 [] t"
  by (rule replace_no_old) (rule replace_removes)

text \<open>
  Claim C6. With tab removal enabled the built-in rules give a text without any tab,
  whatever else is enabled, and with both tab rules enabled they give what they give
  with tab removal alone: expansion finds nothing to expand. With the two tab rules
  and nothing else, the result is the text with its tabs deleted; with expansion alone,
  every tab becomes the chosen number of spaces. The text \<open>a\t\tb\<close> with both rules and
  four spaces per tab is cleaned to \<open>ab\<close> (with expansion alone, to \<open>a\<close>, eight spaces
  and \<open>b\<close>), and \<open>clean_whitespace\<close> leaves \<open>ab\<close> in the input field.
\<close>

theorem strip_tabs_before_expand_tabs:
  "builtin_rules (opts\<lparr>remove_tabs := True, replace_tabs := True\<rparr>) t
     = builtin_rules (opts\<lparr>remove_tabs := True, replace_tabs := False\<rparr>) t
   \<and> 0x09 \<notin> set (builtin_rules (opts\<lparr>remove_tabs := True, replace_tabs := True\<rparr>) t)
   \<and> builtin_rules (opts\<lparr>remove_spaces := False, remove_newlines := False,
         trim_lines := False, remove_invisible := False,
         remove_tabs := True, replace_tabs := True\<rparr>) t
       = filter (\<lambda>c. c \<noteq> 0x09) t
   \<and> builtin_rules (opts\<lparr>remove_spaces := False, remove_newlines := False,
         trim_lines := False, remove_invisible := False,
         remove_tabs := False, replace_tabs := True\<rparr>) t
       = concat (map (\<lambda>c. if c = 0x09 then replicate (tab_spaces opts) 0x20 else [c]) t)
   \<and> builtin_rules
        \<lparr>remove_spaces = False, remove_tabs = True, remove_newlines = False,
         trim_lines = False, remove_invisible = False, replace_tabs = True, tab_spaces = 4,
         regex_input = [], regex_replace = []\<rparr> [0x61, 0x09, 0x09, 0x62] = [0x61, 0x62]
   \<and> builtin_rules
        \<lparr>remove_spaces = False, remove_tabs = False, remove_newlines = False,
         trim_lines = False, remove_invisible = False, replace_tabs = True, tab_spaces = 4,
         regex_input = [], regex_replace = []\<rparr> [0x61, 0x09, 0x09, 0x62]
       = [0x61, 0x20, 0x20, 0x20, 0x20, 0x20, 0x20, 0x20, 0x20, 0x62]
   \<and> (\<exists>st'. clean_whitespace eng
        \<lparr>remove_spaces = False, remove_tabs = True, remove_newlines = False,
         trim_lines = False, remove_invisible = False, replace_tabs = True, tab_spaces = 4,
         regex_input = [], regex_replace = []\<rparr> (st\<lparr>input_text := [0x61, 0x09, 0x09, 0x62]\<rparr>) = Inr st'
         \<and> input_text st' = [0x61, 0x62])"
proof -
  have a: "builtin_rules (opts\<lparr>remove_tabs := True, replace_tabs := True\<rparr>) t
     = builtin_rules (opts\<lparr>remove_tabs := True, replace_tabs := False\<rparr>) t"
    by (simp add: builtin_rules_def Let_def strip_then_expand)
  have n: "0x09 \<notin> set (builtin_rules (opts\<lparr>remove_tabs := True, replace_tabs := True\<rparr>) t)"
    by (rule no_tab_after_strip) simp
  have d: "builtin_rules (opts\<lparr>remove_spaces := False, remove_newlines := False,
         trim_lines := False, remove_invisible := False,
         remove_tabs := True, replace_tabs := True\<rparr>) t
       = filter (\<lambda>c. c \<noteq> 0x09) t"
    by (simp add: builtin_rules_def Let_def replace_delete replace_no_old)
  have x: "builtin_rules (opts\<lparr>remove_spaces := False, remove_newlines := False,
         trim_lines := False, remove_invisible := False,
         remove_tabs := False, replace_tabs := True\<rparr>) t
       = concat (map (\<lambda>c. if c = 0x09 then replicate (tab_spaces opts) 0x20 else [c]) t)"
    by (simp add: builtin_rules_def Let_def replace_def)
  have b: "builtin_rules
        \<lparr>remove_spaces = False, remove_tabs = True, remove_newlines = False,
         trim_lines = False, remove_invisible = False, replace_tabs = True, tab_spaces = 4,
         regex_input = [], regex_replace = []\<rparr> [0x61, 0x09, 0x09, 0x62] = [0x61, 0x62]"
    by (simp add: builtin_rules_def Let_def replace_def)
  have y: "builtin_rules
        \<lparr>remove_spaces = False, remove_tabs = False, remove_newlines = False,
         trim_lines = False, remove_invisible = False, replace_tabs = True, tab_spaces = 4,
         regex_input = [], regex_replace = []\<rparr> [0x61, 0x09, 0x09, 0x62]
       = [0x61, 0x20, 0x20, 0x20, 0x20, 0x20, 0x20, 0x20, 0x20, 0x62]"
    by (simp add: builtin_rules_def Let_def replace_def numeral_eq_Suc)
  have c: "\<exists>st'. clean_whitespace eng
        \<lparr>remove_spaces = False, remove_tabs = True, remove_newlines = False,
         trim_lines = False, remove_invisible = False, replace_tabs = True, tab_spaces = 4,
         regex_input = [], regex_replace = []\<rparr> (st\<lparr>input_text := [0x61, 0x09, 0x09, 0x62]\<rparr>) = Inr st'
         \<and> input_text st' = [0x61, 0x62]"
    unfolding clean_whitespace_def Let_def b
    by (simp add: custom_rule_def b showMessage_def update_stats_def detect_whitespace_def
        save_history_def Let_def)
  from a n d x b y c show ?thesis by blast
qed

text \<open>
  Claim C5, as the code has it. If the pattern field is not empty and compiling its
  pattern raises \<open>re.error\<close>, \<open>clean_whitespace\<close> returns normally, having shown one
  warning and changed nothing else: the input field, the display, the history and its
  cursor are what they were. (On an empty input field the warning is the one about the
  empty input, as the handler checks that first.)
\<close>

theorem invalid_pattern_aborts_clean:
  assumes "regex_input opts \<noteq> []"
    and "re_compile eng (regex_input opts) = Inl ReError"
  shows "\<exists>st'. clean_whitespace eng opts st = Inr st'
       \<and> st' = st\<lparr>warnings := warnings st @
                  [if input_text st = [] then (''Warning'', ''Input text is empty!'')
                   else (''Error'', ''Invalid regex pattern!'')]\<rparr>
       \<and> input_text st' = input_text st \<and> output_text st' = output_text st
       \<and> history st' = history st \<and> history_index st' = history_index st"
proof -
  have "custom_rule eng opts u = Inl ReError" for u
    using assms by (simp add: custom_rule_def re_sub_def)
  then have "clean_whitespace eng opts st =
           Inr (st\<lparr>warnings := warnings st @
                  [if input_text st = [] then (''Warning'', ''Input text is empty!'')
                   else (''Error'', ''Invalid regex pattern!'')]\<rparr>)"
    by (simp add: clean_whitespace_def Let_def warning_def)
  then show ?thesis by simp
qed

theorem invalid_pattern_aborts_clean_witness:
  "regex_input \<lparr>remove_spaces = True, remove_tabs = True, remove_newlines = False,
         trim_lines = True, remove_invisible = True, replace_tabs = False, tab_spaces = 4,
         regex_input = lit ''('', regex_replace = lit ''x''\<rparr> \<noteq> []
   \<and> re_compile sample_engine (lit ''('') = Inl ReError
   \<and> clean_whitespace sample_engine
        \<lparr>remove_spaces = True, remove_tabs = True, remove_newlines = False,
         trim_lines = True, remove_invisible = True, replace_tabs = False, tab_spaces = 4,
         regex_input = lit ''('', regex_replace = lit ''x''\<rparr>
        (init\<lparr>input_text := lit ''a  b'', history := [lit ''a   b  ''], history_index := 0\<rparr>)
      = Inr (init\<lparr>input_text := lit ''a  b'', history := [lit ''a   b  ''], history_index := 0,
                  warnings := [(''Error'', ''Invalid regex pattern!'')]\<rparr>)"
proof -
  let ?opts = "\<lparr>remove_spaces = True, remove_tabs = True, remove_newlines = False,
         trim_lines = True, remove_invisible = True, replace_tabs = False, tab_spaces = 4,
         regex_input = lit ''('', regex_replace = lit ''x''\<rparr>"
  have h1: "regex_input ?opts \<noteq> []" by (simp add: lit_def)
  have h2: "re_compile sample_engine (regex_input ?opts) = Inl ReError"
    by (simp add: sample_engine_def)
  show ?thesis
    using h1 h2 invalid_pattern_aborts_clean [OF h1 h2,
        of "init\<lparr>input_text := lit ''a  b'', history := [lit ''a   b  ''], history_index := 0\<rparr>"]
    by (simp add: init_def lit_def)
qed

text \<open>
  A pattern that fails to compile with another exception is not handled: on a
  non-empty input the exception leaves \<open>clean_whitespace\<close>, and no warning is shown.
\<close>

lemma clean_whitespace_other_exception:
  assumes "input_text st \<noteq> []" and "regex_input opts \<noteq> []"
    and "re_compile eng (regex_input opts) = Inl e" and "e \<noteq> ReError"
  shows "clean_whitespace eng opts st = Inl e"
proof -
  have "custom_rule eng opts u = Inl e" for u
    using assms(2,3) by (simp add: custom_rule_def re_sub_def)
  then show ?thesis
    using assms(1,4) by (cases e) (simp_all add: clean_whitespace_def Let_def)
qed

text \<open>
  The pattern \<open>a{99999999999}\<close> does not compile, and the clean that uses it reports
  nothing: it ends with \<open>OverflowError\<close>.
\<close>

theorem overflow_pattern_counterexample:
  "re_compile sample_engine (lit ''a{99999999999}'') = Inl OverflowError
   \<and> clean_whitespace sample_engine
        \<lparr>remove_spaces = False, remove_tabs = False, remove_newlines = False,
         trim_lines = False, remove_invisible = False, replace_tabs = False, tab_spaces = 4,
         regex_input = lit ''a{99999999999}'', regex_replace = lit ''b''\<rparr>
        (init\<lparr>input_text := lit ''aaa bb aaaa''\<rparr>)
      = Inl OverflowError"
proof -
  let ?opts = "\<lparr>remove_spaces = False, remove_tabs = False, remove_newlines = False,
         trim_lines = False, remove_invisible = False, replace_tabs = False, tab_spaces = 4,
         regex_input = lit ''a{99999999999}'', regex_replace = lit ''b''\<rparr>"
  have c: "re_compile sample_engine (lit ''a{99999999999}'') = Inl OverflowError"
    by (simp add: sample_engine_def lit_def)
  have "clean_whitespace sample_engine ?opts (init\<lparr>input_text := lit ''aaa bb aaaa''\<rparr>)
      = Inl OverflowError"
    by (rule clean_whitespace_other_exception) (simp_all add: c, simp_all add: lit_def)
  with c show ?thesis by simp
qed

section \<open>Properties of the history\<close>

lemma save_history_fields:
  assumes "history_inv st"
  shows "history (save_history a st) = take (nat (history_index st + 1)) (history st) @ [a]"
    and "history_index (save_history a st) = history_index st + 1"
    and "history_index (save_history a st) = int (length (history (save_history a st))) - 1"
  using assms by (auto simp: save_history_def py_slice_to_def history_inv_def)

lemma save_history_inv: "history_inv st \<Longrightarrow> history_inv (save_history a st)"
  by (auto simp: save_history_def py_slice_to_def history_inv_def)

lemma detect_whitespace_fields [simp]:
  "history (detect_whitespace st) = history st"
  "history_index (detect_whitespace st) = history_index st"
  "input_text (detect_whitespace st) = input_text st"
  by (simp_all add: detect_whitespace_def Let_def warning_def showMessage_def)

lemma update_stats_fields [simp]:
  "history (update_stats st) = history st"
  "history_index (update_stats st) = history_index st"
  "input_text (update_stats st) = input_text st"
  by (simp_all add: update_stats_def Let_def showMessage_def)

lemma showMessage_fields [simp]:
  "history (showMessage m st) = history st"
  "history_index (showMessage m st) = history_index st"
  "input_text (showMessage m st) = input_text st"
  by (simp_all add: showMessage_def)

lemma undo_moves:
  assumes "0 < history_index st" "history_index st \<le> int (length (history st)) - 1"
  shows "\<exists>st'. undo st = Inr st' \<and> history st' = history st
         \<and> history_index st' = history_index st - 1
         \<and> input_text st' = history st ! nat (history_index st - 1)"
  using assms by (simp add: undo_def Let_def py_getitem_def)

lemma undo_exhausted: "history_index st \<le> 0 \<Longrightarrow> undo st = Inr st"
  by (simp add: undo_def)

lemma redo_moves:
  assumes "- 1 \<le> history_index st" "history_index st < int (length (history st)) - 1"
  shows "\<exists>st'. redo st = Inr st' \<and> history st' = history st
         \<and> history_index st' = history_index st + 1
         \<and> input_text st' = history st ! nat (history_index st + 1)"
  using assms by (simp add: redo_def Let_def py_getitem_def)

lemma redo_exhausted: "int (length (history st)) - 1 \<le> history_index st \<Longrightarrow> redo st = Inr st"
  by (simp add: redo_def)

lemma undo_inv: "history_inv st \<Longrightarrow> \<exists>st'. undo st = Inr st' \<and> history_inv st'"
proof (cases "0 < history_index st")
  case True
  assume "history_inv st"
  with True undo_moves [of st] show ?thesis by (auto simp: history_inv_def)
next
  case False
  assume "history_inv st"
  with False show ?thesis by (simp add: undo_exhausted)
qed

lemma redo_inv: "history_inv st \<Longrightarrow> \<exists>st'. redo st = Inr st' \<and> history_inv st'"
proof (cases "history_index st < int (length (history st)) - 1")
  case True
  assume "history_inv st"
  with True redo_moves [of st] show ?thesis by (auto simp: history_inv_def)
next
  case False
  assume "history_inv st"
  with False show ?thesis by (simp add: redo_exhausted)
qed

lemma clear_text_inv: "history_inv (clear_text st)"
  by (simp add: clear_text_def history_inv_def)

lemma apply_op_inv: "history_inv st \<Longrightarrow> \<exists>st'. apply_op st x = Inr st' \<and> history_inv st'"
  by (cases x) (simp_all add: save_history_inv undo_inv redo_inv clear_text_inv)

lemma apply_ops_inv: "history_inv st \<Longrightarrow> \<exists>st'. apply_ops st xs = Inr st' \<and> history_inv st'"
proof (induction xs arbitrary: st)
  case Nil
  then show ?case by simp
next
  case (Cons x xs)
  from apply_op_inv [OF Cons.prems, of x] obtain s where
    s: "apply_op st x = Inr s" "history_inv s" by blast
  from Cons.IH [OF s(2)] s(1) show ?case by simp
qed

lemma init_inv: "history_inv init"
  by (simp add: init_def history_inv_def)

text \<open>
  Recording happens only inside \<open>clean_whitespace\<close>: a clean that returns keeps the
  history as it was or records the text the input field held, so it keeps the invariant.
\<close>

lemma warning_fields [simp]:
  "history (warning a b st) = history st"
  "history_index (warning a b st) = history_index st"
  by (simp_all add: warning_def)

lemma clean_whitespace_history:
  assumes "clean_whitespace eng opts st = Inr st'"
  shows "(history st' = history st \<and> history_index st' = history_index st)
       \<or> (history st' = history (save_history (input_text st) st)
          \<and> history_index st' = history_index (save_history (input_text st) st))"
  using assms
  by (auto simp: clean_whitespace_def Let_def save_history_def
      split: if_splits sum.splits py_error.splits)

lemma clean_whitespace_inv:
  assumes "history_inv st" and "clean_whitespace eng opts st = Inr st'"
  shows "history_inv st'"
  using clean_whitespace_history [OF assms(2)] save_history_inv [OF assms(1), of "input_text st"] assms(1)
  by (auto simp: history_inv_def)

text \<open>
  Claim C8. Every sequence of record, undo, redo and clear operations from the initial
  state runs to the end without an exception, and in the state it reaches (so after
  every prefix too) the cursor is between \<open>-1\<close> and the last index. In that state
  undo and redo return normally; with no earlier entry undo leaves the whole state as
  it is, and with no later entry so does redo. Both handlers return nothing in every
  case.
\<close>

theorem history_cursor_in_range:
  "\<exists>st. apply_ops init ops = Inr st
      \<and> - 1 \<le> history_index st \<and> history_index st \<le> int (length (history st)) - 1
      \<and> (\<exists>u. undo st = Inr u) \<and> (\<exists>r. redo st = Inr r)
      \<and> (history_index st \<le> 0 \<longrightarrow> undo st = Inr st)
      \<and> (int (length (history st)) - 1 \<le> history_index st \<longrightarrow> redo st = Inr st)"
proof -
  from apply_ops_inv [OF init_inv, of ops] obtain st where
    st: "apply_ops init ops = Inr st" "history_inv st" by blast
  from undo_inv [OF st(2)] redo_inv [OF st(2)] st show ?thesis
    by (auto simp: history_inv_def undo_exhausted redo_exhausted)
qed


text \<open>
  Claim C7. From any state whose cursor is \<open>-1\<close> or the index of an entry: after
  recording \<open>A\<close> and \<open>B\<close>, undo puts the cursor on \<open>A\<close> and \<open>A\<close> in the input field, and
  a redo after it does the same with \<open>B\<close>. After recording \<open>A\<close>, undo and recording
  \<open>C\<close>, the cursor is on the last entry and redo changes nothing; if the undo moved
  the cursor (there was an entry before \<open>A\<close>), recording \<open>C\<close> dropped \<open>A\<close>.
\<close>

theorem history_record_undo_redo:
  assumes "- 1 \<le> history_index st" and "history_index st \<le> int (length (history st)) - 1"
  shows "\<exists>s1 s2 u s3.
           undo (save_history B (save_history A st)) = Inr s1
         \<and> py_getitem (history s1) (history_index s1) = Inr A \<and> input_text s1 = A
         \<and> redo s1 = Inr s2
         \<and> py_getitem (history s2) (history_index s2) = Inr B \<and> input_text s2 = B
         \<and> undo (save_history A st) = Inr u
         \<and> s3 = save_history C u
         \<and> redo s3 = Inr s3
         \<and> history_index s3 = int (length (history s3)) - 1
         \<and> history s3 = (if 0 \<le> history_index st
                          then take (nat (history_index st + 1)) (history st) @ [C]
                          else [A, C])"
proof -
  define h where "h = take (nat (history_index st + 1)) (history st)"
  define k where "k = length h"
  have inv: "history_inv st" using assms by (simp add: history_inv_def)
  have ik: "history_index st = int k - 1"
    using assms by (simp add: k_def h_def)
  let ?a = "save_history A st"
  let ?b = "save_history B ?a"
  have inva: "history_inv ?a" using inv by (rule save_history_inv)
  have ha: "history ?a = h @ [A]" "history_index ?a = int k"
    using save_history_fields(1,2) [OF inv, of A] by (simp_all add: h_def ik)
  have hb: "history ?b = h @ [A, B]" "history_index ?b = int k + 1"
    using save_history_fields(1,2) [OF inva, of B] ha by (simp_all add: k_def)
  have lenh: "length h = k" by (simp add: k_def)
  have at_k: "(h @ [A, B]) ! k = A" and at_Suc_k: "(h @ [A, B]) ! Suc k = B"
    by (simp_all add: k_def nth_append)
  \<comment> \<open>record A, record B, undo\<close>
  have "0 < history_index ?b" "history_index ?b \<le> int (length (history ?b)) - 1"
    unfolding hb by (simp_all add: k_def)
  from undo_moves [OF this] obtain s1 where s1: "undo ?b = Inr s1" "history s1 = history ?b"
      "history_index s1 = history_index ?b - 1"
      "input_text s1 = history ?b ! nat (history_index ?b - 1)"
    by blast
  have s1': "history s1 = h @ [A, B]" "history_index s1 = int k" "input_text s1 = A"
    using s1(2,3,4) at_k unfolding hb by simp_all
  have g1: "py_getitem (history s1) (history_index s1) = Inr A"
    unfolding s1' py_getitem_def Let_def by (simp add: at_k lenh)
  \<comment> \<open>then redo\<close>
  have "- 1 \<le> history_index s1" "history_index s1 < int (length (history s1)) - 1"
    unfolding s1' by (simp_all add: k_def)
  from redo_moves [OF this] obtain s2 where s2: "redo s1 = Inr s2" "history s2 = history s1"
      "history_index s2 = history_index s1 + 1"
      "input_text s2 = history s1 ! nat (history_index s1 + 1)"
    by blast
  have n2: "nat (int k + 1) = Suc k" by simp
  have s2': "history s2 = h @ [A, B]" "history_index s2 = int k + 1" "input_text s2 = B"
    using s2(2,3,4) at_Suc_k unfolding s1' n2 by simp_all
  have g2: "py_getitem (history s2) (history_index s2) = Inr B"
    unfolding s2' py_getitem_def Let_def by (simp add: n2 at_Suc_k lenh)
  \<comment> \<open>record A, undo, record C, redo\<close>
  from undo_inv [OF inva] obtain u where u: "undo ?a = Inr u" "history_inv u" by blast
  let ?c = "save_history C u"
  have tail: "history_index ?c = int (length (history ?c)) - 1"
    using save_history_fields(3) [OF u(2)] .
  then have g3: "redo ?c = Inr ?c" by (simp add: redo_exhausted)
  have g4: "history ?c = (if 0 \<le> history_index st then h @ [C] else [A, C])"
  proof (cases "0 \<le> history_index st")
    case True
    then have "0 < history_index ?a" "history_index ?a \<le> int (length (history ?a)) - 1"
      unfolding ha using ik by (simp_all add: k_def)
    from undo_moves [OF this] u(1) have "history u = h @ [A]" "history_index u = int k - 1"
      using ha by auto
    then have "history ?c = take k (h @ [A]) @ [C]"
      using save_history_fields(1) [OF u(2), of C] by simp
    then show ?thesis using True by (simp add: k_def)
  next
    case False
    then have k0: "k = 0" using assms(1) ik by linarith
    then have "undo ?a = Inr ?a" using ha by (simp add: undo_exhausted)
    then have "u = ?a" using u(1) by simp
    then have "history ?c = take (nat (int k + 1)) (h @ [A]) @ [C]"
      using save_history_fields(1) [OF u(2), of C] ha by simp
    then show ?thesis using False k0 by (simp add: k_def)
  qed
  from s1(1) g1 s1'(3) s2(1) g2 s2'(3) u(1) g3 tail g4 show ?thesis
    unfolding h_def by blast
qed

theorem history_record_undo_redo_witness:
  "- 1 \<le> history_index (init\<lparr>history := [lit ''x'', lit ''y''], history_index := 0\<rparr>)
   \<and> history_index (init\<lparr>history := [lit ''x'', lit ''y''], history_index := 0\<rparr>)
        \<le> int (length (history (init\<lparr>history := [lit ''x'', lit ''y''], history_index := 0\<rparr>))) - 1
   \<and> (\<exists>s1 s2 u s3.
         undo (save_history (lit ''b'') (save_history (lit ''a'')
            (init\<lparr>history := [lit ''x'', lit ''y''], history_index := 0\<rparr>))) = Inr s1
         \<and> input_text s1 = lit ''a''
         \<and> redo s1 = Inr s2 \<and> input_text s2 = lit ''b''
         \<and> undo (save_history (lit ''a'')
              (init\<lparr>history := [lit ''x'', lit ''y''], history_index := 0\<rparr>)) = Inr u
         \<and> s3 = save_history (lit ''c'') u \<and> redo s3 = Inr s3
         \<and> history s3 = [lit ''x'', lit ''c''])"
proof -
  let ?st = "init\<lparr>history := [lit ''x'', lit ''y''], history_index := 0\<rparr>"
  have h1: "- 1 \<le> history_index ?st" by simp
  have h2: "history_index ?st \<le> int (length (history ?st)) - 1" by simp
  from history_record_undo_redo [OF h1 h2, of "lit ''b''" "lit ''a''" "lit ''c''"]
  obtain s1 s2 u s3 where
    "undo (save_history (lit ''b'') (save_history (lit ''a'') ?st)) = Inr s1"
    "input_text s1 = lit ''a''" "redo s1 = Inr s2" "input_text s2 = lit ''b''"
    "undo (save_history (lit ''a'') ?st) = Inr u"
    "s3 = save_history (lit ''c'') u" "redo s3 = Inr s3"
    "history s3 = [lit ''x'', lit ''c'']"
    by auto
  with h1 h2 show ?thesis by blast
qed

theorem history_cursor_in_range_witness:
  "apply_ops init [Record (lit ''a''), Undo, Redo]
     = Inr (init\<lparr>history := [lit ''a''], history_index := 0\<rparr>)
   \<and> history_index (init\<lparr>history := [lit ''a''], history_index := 0\<rparr>) \<le> 0
   \<and> int (length (history (init\<lparr>history := [lit ''a''], history_index := 0\<rparr>))) - 1
        \<le> history_index (init\<lparr>history := [lit ''a''], history_index := 0\<rparr>)
   \<and> undo (init\<lparr>history := [lit ''a''], history_index := 0\<rparr>)
        = Inr (init\<lparr>history := [lit ''a''], history_index := 0\<rparr>)
   \<and> redo (init\<lparr>history := [lit ''a''], history_index := 0\<rparr>)
        = Inr (init\<lparr>history := [lit ''a''], history_index := 0\<rparr>)"
proof -
  let ?s = "init\<lparr>history := [lit ''a''], history_index := 0\<rparr>"
  have run: "apply_ops init [Record (lit ''a''), Undo, Redo] = Inr ?s"
    by (simp add: save_history_def py_slice_to_def init_def undo_def redo_def)
  from history_cursor_in_range [of "[Record (lit ''a''), Undo, Redo]"] run
  have "undo ?s = Inr ?s" "redo ?s = Inr ?s" by simp_all
  with run show ?thesis by simp
qed

end
